theory Spec2Isabelle
  imports Main "HOL-Library.FSet" "HOL-Library.Finite_Map"
begin

section \<open>Python strings\<close>

text \<open>
  A Python \<open>str\<close> is a sequence of code points. The model is \<^typ>\<open>string\<close>, one
  \<^typ>\<open>char\<close> per code point, which covers the code points below 256; \<open>len\<close> is
  \<^const>\<open>length\<close>. The character classes below are those of CPython on that range:
  \<open>str.isspace\<close> (used by \<open>str.strip()\<close> and by the pattern \<open>\s\<close>), the pattern
  \<open>\w\<close> and the pattern \<open>\d\<close>.
\<close>

datatype py_error =
    AttributeError | IndexError | TypeError | FileNotFoundError | FileExistsError
  | IsADirectoryError | NotADirectoryError | RequestException

definition isspace :: "char \<Rightarrow> bool" where
  "isspace c =
     (let n = (of_char c :: nat)
      in (9 \<le> n \<and> n \<le> 13) \<or> (28 \<le> n \<and> n \<le> 32) \<or> n = 133 \<or> n = 160)"

definition isdigit :: "char \<Rightarrow> bool" where
  "isdigit c = (let n = (of_char c :: nat) in 48 \<le> n \<and> n \<le> 57)"

definition is_word :: "char \<Rightarrow> bool" where
  "is_word c =
     (let n = (of_char c :: nat)
      in (48 \<le> n \<and> n \<le> 57) \<or> (65 \<le> n \<and> n \<le> 90) \<or> n = 95 \<or> (97 \<le> n \<and> n \<le> 122)
         \<or> n = 170 \<or> n = 178 \<or> n = 179 \<or> n = 181 \<or> n = 185 \<or> n = 186
         \<or> (188 \<le> n \<and> n \<le> 190) \<or> (192 \<le> n \<and> n \<le> 214)
         \<or> (216 \<le> n \<and> n \<le> 246) \<or> (248 \<le> n \<and> n \<le> 255))"

text \<open>\<open>s.strip()\<close>: leading and trailing whitespace removed.\<close>

definition strip :: "string \<Rightarrow> string" where
  "strip s = rev (dropWhile isspace (rev (dropWhile isspace s)))"

text \<open>\<open>s.startswith(p)\<close>.\<close>

fun startswith :: "string \<Rightarrow> string \<Rightarrow> bool" where
  "startswith [] s = True"
| "startswith (p # ps) [] = False"
| "startswith (p # ps) (c # cs) = (p = c \<and> startswith ps cs)"

text \<open>
  \<open>s.replace(old, new)\<close>: the occurrences of \<open>old\<close> are replaced from left to right,
  without overlap. The source only passes non-empty literals as \<open>old\<close>; for an empty
  \<open>old\<close> the model returns \<open>s\<close>.
\<close>

function replace_py :: "string \<Rightarrow> string \<Rightarrow> string \<Rightarrow> string" where
  "replace_py old new [] = []"
| "replace_py old new (c # cs) =
     (if old \<noteq> [] \<and> startswith old (c # cs)
      then new @ replace_py old new (drop (length old) (c # cs))
      else c # replace_py old new cs)"
  by pat_completeness auto
termination
  by (relation "measure (\<lambda>(old, new, s). length s)") auto

text \<open>
  \<open>s.split(sep)\<close> for a non-empty separator: the pieces between the occurrences of
  \<open>sep\<close>, empty pieces kept; always at least one piece.
\<close>

function split_py :: "string \<Rightarrow> string \<Rightarrow> string list" where
  "split_py sep [] = [[]]"
| "split_py sep (c # cs) =
     (if sep \<noteq> [] \<and> startswith sep (c # cs)
      then [] # split_py sep (drop (length sep) (c # cs))
      else (case split_py sep cs of
              [] \<Rightarrow> [[c]]
            | p # ps \<Rightarrow> (c # p) # ps))"
  by pat_completeness auto
termination
  by (relation "measure (\<lambda>(sep, s). length s)") auto

text \<open>\<open>s[:n]\<close> for an integer \<open>n\<close>: a negative \<open>n\<close> counts from the end.\<close>

definition slice_to :: "string \<Rightarrow> int \<Rightarrow> string" where
  "slice_to s n = (if 0 \<le> n then take (nat n) s else take (length s - nat (- n)) s)"

text \<open>\<open>str(n)\<close> for an integer, as an f-string interpolates it.\<close>

fun digits_of :: "nat \<Rightarrow> string" where
  "digits_of n =
     (if n < 10 then [''0123456789'' ! n]
      else digits_of (n div 10) @ [''0123456789'' ! (n mod 10)])"

definition str_int :: "int \<Rightarrow> string" where
  "str_int i = (if i < 0 then ''-'' @ digits_of (nat (- i)) else digits_of (nat i))"

text \<open>An f-string interpolates \<open>None\<close> as the text \<open>None\<close>.\<close>

fun str_opt :: "string option \<Rightarrow> string" where
  "str_opt None = ''None''"
| "str_opt (Some s) = s"

section \<open>Helper functions of the source\<close>

text \<open>
  \<open>clean_description\<close>: the branch structure of the source is kept. The local variable is
  \<open>None\<close> when the match list is empty or when no non-blank line is left; the
  \<open>replace\<close> calls of line 23 are outside the \<open>if\<close>, so they run on \<open>None\<close> too
  and raise \<open>AttributeError\<close>.
\<close>

definition last_line :: "string list \<Rightarrow> string option" where
  "last_line description_field =
     (if description_field \<noteq> [] then
        (let lines = split_py ''\<newline>'' (strip (hd description_field));
             kept = filter (\<lambda>line. strip line \<noteq> []) lines
         in if kept \<noteq> [] then Some (last kept) else None)
      else None)"

definition clean_description :: "string list \<Rightarrow> py_error + string" where
  "clean_description description_field =
     (case last_line description_field of
        None \<Rightarrow> Inl AttributeError
      | Some d \<Rightarrow> Inr (replace_py ''_'' ''-'' (replace_py '' '' ''-'' d)))"

text \<open>
  \<open>clean_field\<close>: \<open>limit\<close> is \<open>None\<close> or an integer; \<open>if limit:\<close> is false for both
  \<open>None\<close> and \<open>0\<close>.
\<close>

definition clean_field :: "string list \<Rightarrow> int option \<Rightarrow> string option" where
  "clean_field field limit =
     (if field \<noteq> [] then
        (let f = replace_py '' '' ''_'' (strip (hd field))
         in case limit of
              None \<Rightarrow> Some f
            | Some l \<Rightarrow>
                if l \<noteq> 0 then
                  Some (if int (length f) \<ge> l then slice_to f l
                        else f @ replicate (nat (l - int (length f))) CHR ''_'')
                else Some f)
      else None)"

definition clean_date :: "string list \<Rightarrow> string option" where
  "clean_date date_field =
     (if date_field \<noteq> [] then
        (let d = replace_py ''/'' ''_'' (strip (hd (split_py '' at'' (hd date_field))))
         in if replace_py '' '' '''' d = ''UploadDate'' then Some '''' else Some d)
      else None)"

section \<open>The field parser\<close>

text \<open>
  \<open>re.findall\<close> for the three shapes of pattern the source uses. Each function scans
  the text from left to right as the regular-expression engine does: a match is tried
  at the current position, the next search starts where the last match ended, and a
  position where the match fails is skipped.

  \<open>findall_line_after tok\<close> is the pattern \<open>tok\n(.*?)\n\<close> under \<open>re.DOTALL\<close>: after
  \<open>tok\<close> and a newline the lazy group takes the text up to the next newline.
\<close>

function findall_line_after :: "string \<Rightarrow> string \<Rightarrow> string list" where
  "findall_line_after tok [] = []"
| "findall_line_after tok (c # cs) =
     (if startswith (tok @ ''\<newline>'') (c # cs) then
        (let rest = drop (length tok + 1) (c # cs)
         in if CHR ''\<newline>'' \<in> set rest
            then takeWhile (\<lambda>x. x \<noteq> CHR ''\<newline>'') rest
                 # findall_line_after tok (tl (dropWhile (\<lambda>x. x \<noteq> CHR ''\<newline>'') rest))
            else findall_line_after tok cs)
      else findall_line_after tok cs)"
  by pat_completeness auto
termination
proof (relation "measure (\<lambda>(tok, s). length s)", goal_cases)
  case 1
  show ?case by simp
next
  case (2 tok c cs rest)
  have "length (dropWhile (\<lambda>x. x \<noteq> CHR ''\<newline>'') rest) \<le> length rest"
    by (rule length_dropWhile_le)
  moreover have "length rest \<le> length cs"
    using 2 by simp
  ultimately show ?case by simp
next
  case 3
  show ?case by simp
next
  case 4
  show ?case by simp
qed

text \<open>
  \<open>findall_before tok\<close> is the pattern \<open>(.*?)tok\<close> under \<open>re.DOTALL\<close>: the lazy group
  grows by one character at a time (kept reversed in \<open>acc\<close>) until \<open>tok\<close> follows. When
  the text ends first there is no further match.
\<close>

function findall_before :: "string \<Rightarrow> string \<Rightarrow> string \<Rightarrow> string list" where
  "findall_before tok acc [] = []"
| "findall_before tok acc (c # cs) =
     (if tok \<noteq> [] \<and> startswith tok (c # cs)
      then rev acc # findall_before tok [] (drop (length tok) (c # cs))
      else findall_before tok (c # acc) cs)"
  by pat_completeness auto
termination
  by (relation "measure (\<lambda>(tok, acc, s). length s)") auto

text \<open>
  \<open>findall_number_after tok\<close> is the pattern \<open>tok\s(\d+)\<close>: \<open>tok\<close>, one whitespace
  character, and the longest run of decimal digits, which must not be empty.
\<close>

function findall_number_after :: "string \<Rightarrow> string \<Rightarrow> string list" where
  "findall_number_after tok [] = []"
| "findall_number_after tok (c # cs) =
     (if startswith tok (c # cs) then
        (case drop (length tok) (c # cs) of
           [] \<Rightarrow> findall_number_after tok cs
         | w # r \<Rightarrow>
             if isspace w \<and> takeWhile isdigit r \<noteq> []
             then takeWhile isdigit r # findall_number_after tok (dropWhile isdigit r)
             else findall_number_after tok cs)
      else findall_number_after tok cs)"
  by pat_completeness auto
termination
proof (relation "measure (\<lambda>(tok, s). length s)", goal_cases)
  case 1
  show ?case by simp
next
  case 2
  show ?case by simp
next
  case (3 tok c cs w r)
  have "length (dropWhile isdigit r) \<le> length r"
    by (rule length_dropWhile_le)
  moreover have "length (w # r) \<le> length (c # cs)"
    using 3(2) [symmetric] by simp
  ultimately show ?case by simp
next
  case 4
  show ?case by simp
next
  case 5
  show ?case by simp
qed

text \<open>
  The five match lists of \<open>parse_text_to_fields\<close>, after the replacement of two spaces
  by one.
\<close>

definition uploaded_by_matches :: "string \<Rightarrow> string list" where
  "uploaded_by_matches text = findall_line_after ''Uploaded By'' (replace_py ''  '' '' '' text)"

definition taken_date_matches :: "string \<Rightarrow> string list" where
  "taken_date_matches text = findall_line_after ''Taken Date'' (replace_py ''  '' '' '' text)"

definition upload_date_matches :: "string \<Rightarrow> string list" where
  "upload_date_matches text = findall_line_after ''Upload Date'' (replace_py ''  '' '' '' text)"

definition description_matches :: "string \<Rightarrow> string list" where
  "description_matches text = findall_before ''Description'' [] (replace_py ''  '' '' '' text)"

definition job_number_matches :: "string \<Rightarrow> string list" where
  "job_number_matches text = findall_number_after ''Job #:'' (replace_py ''  '' '' '' text)"

text \<open>
  The result is the 5-tuple of the source: \<open>uploaded_by\<close>, \<open>taken_date\<close>,
  \<open>upload_date\<close>, \<open>description\<close>, \<open>job_number\<close>. Only \<open>clean_description\<close> can raise,
  and its exception is not caught.
\<close>

type_synonym fields = "string option \<times> string option \<times> string option \<times> string \<times> string option"

definition parse_text_to_fields :: "string \<Rightarrow> py_error + fields" where
  "parse_text_to_fields text =
     (let uploaded_by = clean_field (uploaded_by_matches text) (Some 5);
          taken_date = clean_date (taken_date_matches text);
          upload_date = clean_date (upload_date_matches text);
          job_number = job_number_matches text
      in case clean_description (description_matches text) of
           Inl e \<Rightarrow> Inl e
         | Inr description \<Rightarrow>
             Inr (uploaded_by, taken_date, upload_date, description,
                  if job_number \<noteq> [] then Some (hd job_number) else None))"

section \<open>Paths and the file system\<close>

text \<open>
  \<open>os.path\<close> on POSIX (\<open>posixpath\<close>): \<open>dirname\<close> is the part before the last slash,
  without its trailing slashes unless it consists of slashes only; \<open>basename\<close> is the
  part after the last slash; \<open>join\<close> puts one slash between its arguments unless the
  second is absolute or the first is empty or ends with a slash. \<open>join\<close> raises
  \<open>TypeError\<close> when a component is \<open>None\<close>.
\<close>

definition dirname :: "string \<Rightarrow> string" where
  "dirname p =
     (let head = rev (dropWhile (\<lambda>c. c \<noteq> CHR ''/'') (rev p))
      in if head \<noteq> [] \<and> \<not> (\<forall>c \<in> set head. c = CHR ''/'')
         then rev (dropWhile (\<lambda>c. c = CHR ''/'') (rev head))
         else head)"

definition basename :: "string \<Rightarrow> string" where
  "basename p = rev (takeWhile (\<lambda>c. c \<noteq> CHR ''/'') (rev p))"

definition join :: "string \<Rightarrow> string \<Rightarrow> string" where
  "join a b =
     (if startswith ''/'' b then b
      else if a = [] \<or> last a = CHR ''/'' then a @ b
      else a @ ''/'' @ b)"

definition join_opt :: "string \<Rightarrow> string option \<Rightarrow> py_error + string" where
  "join_opt a b = (case b of None \<Rightarrow> Inl TypeError | Some b' \<Rightarrow> Inr (join a b'))"

text \<open>
  The file system: the regular files with their contents, and the directories. Both
  are finite. A path is the string the program passes; two different strings are two
  different paths (no links, no \<open>.\<close> or \<open>..\<close> components, no doubled slashes), and a
  relative path with no directory part lies in the working directory, which exists.
\<close>

record filesystem =
  files :: "(string, string) fmap"
  dirs :: "string fset"

definition is_file :: "filesystem \<Rightarrow> string \<Rightarrow> bool" where
  "is_file fs p = (fmlookup (files fs) p \<noteq> None)"

definition is_dir :: "filesystem \<Rightarrow> string \<Rightarrow> bool" where
  "is_dir fs p = (p |\<in>| dirs fs)"

definition path_exists :: "filesystem \<Rightarrow> string \<Rightarrow> bool" where
  "path_exists fs p = (is_file fs p \<or> is_dir fs p)"

definition parent_ok :: "filesystem \<Rightarrow> string \<Rightarrow> bool" where
  "parent_ok fs p = (dirname p = [] \<or> is_dir fs (dirname p))"

text \<open>
  \<open>open(p, "wb")\<close> followed by \<open>write\<close>: the file is created or replaced. A
  parent that is missing and a parent that is a regular file are both reported as
  \<open>FileNotFoundError\<close>; the model does not tell the two kinds of error apart.
\<close>

definition write_file :: "filesystem \<Rightarrow> string \<Rightarrow> string \<Rightarrow> py_error + filesystem" where
  "write_file fs p content =
     (if is_dir fs p then Inl IsADirectoryError
      else if \<not> parent_ok fs p then Inl FileNotFoundError
      else Inr (fs\<lparr>files := fmupd p content (files fs)\<rparr>))"

text \<open>
  \<open>os.rename(src, dst)\<close> on POSIX, for a source that is a regular file (every source
  the program renames is one): an existing file at \<open>dst\<close> is replaced silently. A
  source that is not a regular file is reported as missing: the model does not move
  directories, and it does not tell a path below a regular file from a missing one.
\<close>

definition rename :: "filesystem \<Rightarrow> string \<Rightarrow> string \<Rightarrow> py_error + filesystem" where
  "rename fs src dst =
     (case fmlookup (files fs) src of
        None \<Rightarrow> Inl FileNotFoundError
      | Some content \<Rightarrow>
          if is_dir fs dst then Inl IsADirectoryError
          else if \<not> parent_ok fs dst then Inl FileNotFoundError
          else Inr (fs\<lparr>files := fmupd dst content (fmdrop src (files fs))\<rparr>))"

text \<open>
  \<open>os.makedirs(p, exist_ok=True)\<close>: \<open>p\<close> and its missing ancestors become
  directories; it fails when \<open>p\<close> is empty and when \<open>p\<close> or an ancestor is a
  regular file.
\<close>

function ancestors :: "string \<Rightarrow> string list" where
  "ancestors p =
     (if p = [] \<or> dirname p = p \<or> dirname p = [] then []
      else dirname p # ancestors (dirname p))"
  by pat_completeness auto
termination
proof (relation "measure length", goal_cases)
  case 1
  show ?case by simp
next
  case (2 p)
  have le: "length (dirname p) \<le> length p"
  proof -
    have "length (dropWhile (\<lambda>c. c \<noteq> CHR ''/'') (rev p)) \<le> length (rev p)"
      by (rule length_dropWhile_le)
    moreover have "length (dropWhile (\<lambda>c. c = CHR ''/'') (rev (rev (dropWhile (\<lambda>c. c \<noteq> CHR ''/'') (rev p)))))
                   \<le> length (rev (rev (dropWhile (\<lambda>c. c \<noteq> CHR ''/'') (rev p))))"
      by (rule length_dropWhile_le)
    ultimately show ?thesis
      by (simp add: dirname_def Let_def)
  qed
  have pre: "\<exists>n. dirname p = take n p"
  proof -
    define h where "h = rev (dropWhile (\<lambda>c. c \<noteq> CHR ''/'') (rev p))"
    have "\<exists>n. h = take n p"
    proof -
      have "rev p = takeWhile (\<lambda>c. c \<noteq> CHR ''/'') (rev p) @ rev h"
        by (simp add: h_def)
      then have "p = h @ rev (takeWhile (\<lambda>c. c \<noteq> CHR ''/'') (rev p))"
        by (metis rev_append rev_rev_ident)
      then have "h = take (length h) p"
        by (metis append_eq_conv_conj)
      then show ?thesis ..
    qed
    then obtain n where n: "h = take n p" ..
    have "\<exists>m. rev (dropWhile (\<lambda>c. c = CHR ''/'') (rev h)) = take m h"
    proof -
      have "rev h = takeWhile (\<lambda>c. c = CHR ''/'') (rev h) @ dropWhile (\<lambda>c. c = CHR ''/'') (rev h)"
        by simp
      then have "h = rev (dropWhile (\<lambda>c. c = CHR ''/'') (rev h)) @ rev (takeWhile (\<lambda>c. c = CHR ''/'') (rev h))"
        by (metis rev_append rev_rev_ident)
      then have "rev (dropWhile (\<lambda>c. c = CHR ''/'') (rev h))
                 = take (length (rev (dropWhile (\<lambda>c. c = CHR ''/'') (rev h)))) h"
        by (metis append_eq_conv_conj)
      then show ?thesis ..
    qed
    then obtain m where m: "rev (dropWhile (\<lambda>c. c = CHR ''/'') (rev h)) = take m h" ..
    have "dirname p = h \<or> dirname p = take m h"
      using m by (auto simp: dirname_def Let_def h_def)
    then show ?thesis
      using n by (metis take_take)
  qed
  from pre obtain n where "dirname p = take n p" ..
  moreover have "dirname p \<noteq> p" using 2 by simp
  ultimately have "length (dirname p) < length p"
    by (metis le le_neq_implies_less length_take min.absorb2 nat_le_linear take_all)
  then show ?case by simp
qed

definition makedirs :: "filesystem \<Rightarrow> string \<Rightarrow> py_error + filesystem" where
  "makedirs fs p =
     (if p = [] then Inl FileNotFoundError
      else if is_file fs p then Inl FileExistsError
      else if \<exists>a \<in> set (ancestors p). is_file fs a then Inl NotADirectoryError
      else Inr (fs\<lparr>dirs := dirs fs |\<union>| fset_of_list (p # ancestors p)\<rparr>))"

section \<open>Renaming and moving\<close>

definition move_jpeg_to_directory ::
  "filesystem \<Rightarrow> string \<Rightarrow> string option \<Rightarrow> filesystem \<times> py_error option" where
  "move_jpeg_to_directory fs old_file description =
     (case join_opt (dirname old_file) description of
        Inl e \<Rightarrow> (fs, Some e)
      | Inr directory_path \<Rightarrow>
          (case makedirs fs directory_path of
             Inl e \<Rightarrow> (fs, Some e)
           | Inr fs1 \<Rightarrow>
               (let new_file = join directory_path (basename old_file)
                in case rename fs1 old_file new_file of
                     Inl e \<Rightarrow> (fs1, Some e)
                   | Inr fs2 \<Rightarrow> (fs2, None))))"

text \<open>
  \<open>re.sub(r"\W+", "", s)\<close>: every maximal run of characters that are not word
  characters is replaced by the empty string.
\<close>

function sub_nonword :: "string \<Rightarrow> string" where
  "sub_nonword [] = []"
| "sub_nonword (c # cs) =
     (if is_word c then c # sub_nonword cs
      else sub_nonword (dropWhile (\<lambda>x. \<not> is_word x) cs))"
  by pat_completeness auto
termination
proof (relation "measure length", goal_cases)
  case 1
  show ?case by simp
next
  case 2
  show ?case by simp
next
  case (3 c cs)
  have "length (dropWhile (\<lambda>x. \<not> is_word x) cs) \<le> length cs"
    by (rule length_dropWhile_le)
  then show ?case by simp
qed

definition new_name_base ::
  "string option \<Rightarrow> int \<Rightarrow> string option \<Rightarrow> string option \<Rightarrow> string" where
  "new_name_base description page_number taken_date job_number =
     sub_nonword
       (if taken_date = Some []
        then str_opt description @ ''_'' @ str_int page_number @ ''_'' @ str_opt job_number
        else str_opt description @ ''_'' @ str_int page_number @ ''_'' @ str_opt taken_date
             @ ''_'' @ str_opt job_number)"

text \<open>
  The loop of lines 150 to 154. The variable \<open>new_name\<close> is a function of \<open>suffix\<close>
  throughout: the base with \<open>.jpeg\<close> while \<open>suffix\<close> is 0, and the base, an
  underscore, \<open>suffix\<close> and \<open>.jpeg\<close> after each increment. The loop ends because the
  file system is finite and the names differ for different suffixes.
\<close>

definition new_name_of :: "string \<Rightarrow> nat \<Rightarrow> string" where
  "new_name_of base suffix =
     (if suffix = 0 then base @ ''.jpeg''
      else base @ ''_'' @ str_int (int suffix) @ ''.jpeg'')"

text \<open>
  The decimal numeral of a number determines the number, so different suffixes give
  different names; with the finite file system this is what ends the loop.
\<close>

lemma digits_of_eq:
  "digits_of n =
     (if n < 10 then [''0123456789'' ! n]
      else digits_of (n div 10) @ [''0123456789'' ! (n mod 10)])"
  by simp

declare digits_of.simps [simp del]

lemma digits_of_not_Nil: "digits_of n \<noteq> []"
  by (subst digits_of_eq) simp

lemma digit_char_inj:
  assumes "a < 10" "b < 10" "''0123456789'' ! a = ''0123456789'' ! b"
  shows "a = b"
proof -
  have "distinct ''0123456789''" by simp
  moreover have "a < length ''0123456789''" "b < length ''0123456789''"
    using assms by simp_all
  ultimately show ?thesis
    using assms(3) nth_eq_iff_index_eq by blast
qed

lemma digits_of_inj: "digits_of n = digits_of m \<Longrightarrow> n = m"
proof (induction n arbitrary: m rule: digits_of.induct)
  case (1 n)
  show ?case
  proof (cases "n < 10")
    case small_n: True
    show ?thesis
    proof (cases "m < 10")
      case True
      with small_n 1(2) show ?thesis
        by (subst (asm) digits_of_eq, subst (asm) (2) digits_of_eq)
           (simp add: digit_char_inj)
    next
      case False
      have "length (digits_of n) = 1"
        using small_n by (subst digits_of_eq) simp
      moreover have "length (digits_of m) \<ge> 2"
        using False digits_of_not_Nil [of "m div 10"]
        by (subst digits_of_eq) (cases "digits_of (m div 10)"; simp)
      ultimately show ?thesis using 1(2) by simp
    qed
  next
    case big_n: False
    show ?thesis
    proof (cases "m < 10")
      case True
      have "length (digits_of m) = 1"
        using True by (subst digits_of_eq) simp
      moreover have "length (digits_of n) \<ge> 2"
        using big_n digits_of_not_Nil [of "n div 10"]
        by (subst digits_of_eq) (cases "digits_of (n div 10)"; simp)
      ultimately show ?thesis using 1(2) by simp
    next
      case False
      have "digits_of (n div 10) @ [''0123456789'' ! (n mod 10)]
            = digits_of (m div 10) @ [''0123456789'' ! (m mod 10)]"
        using 1(2) big_n False
        by (subst (asm) digits_of_eq, subst (asm) (2) digits_of_eq) simp
      then have eq: "digits_of (n div 10) = digits_of (m div 10)"
        and dig: "''0123456789'' ! (n mod 10) = ''0123456789'' ! (m mod 10)"
        by simp_all
      have "n div 10 = m div 10"
        using 1(1) [OF big_n eq] .
      moreover have "n mod 10 = m mod 10"
        using dig by (intro digit_char_inj) simp_all
      ultimately show ?thesis
        by (metis div_mult_mod_eq)
    qed
  qed
qed

lemma new_name_of_inj: "new_name_of base j = new_name_of base k \<Longrightarrow> j = k"
  by (auto simp: new_name_of_def str_int_def split: if_splits dest: digits_of_inj)

lemma finite_paths: "finite {p. path_exists fs p}"
proof -
  have "{p. path_exists fs p} = fmdom' (files fs) \<union> fset (dirs fs)"
    unfolding path_exists_def is_file_def is_dir_def
    by (auto simp: fmlookup_dom'_iff)
  then show ?thesis by simp
qed

lemma finite_taken_suffixes:
  "finite {k. path_exists fs (join d (new_name_of base k))}"
proof -
  have slash: "startswith ''/'' (new_name_of base j) = startswith ''/'' (new_name_of base k)" for j k
    by (cases base) (simp_all add: new_name_of_def)
  have "inj (\<lambda>k. join d (new_name_of base k))"
  proof (rule injI)
    fix j k
    assume eq: "join d (new_name_of base j) = join d (new_name_of base k)"
    have "new_name_of base j = new_name_of base k"
      using eq slash [of j k] by (auto simp: join_def split: if_splits)
    then show "j = k" by (rule new_name_of_inj)
  qed
  then have "finite ((\<lambda>k. join d (new_name_of base k)) -` {p. path_exists fs p})"
    using finite_paths by (rule finite_vimageI [rotated])
  then show ?thesis by (simp add: vimage_def)
qed

function dedup_suffix :: "filesystem \<Rightarrow> string \<Rightarrow> string \<Rightarrow> nat \<Rightarrow> nat" where
  "dedup_suffix fs old_file base suffix =
     (if path_exists fs (join (dirname old_file) (new_name_of base suffix))
      then dedup_suffix fs old_file base (Suc suffix)
      else suffix)"
  by pat_completeness auto
termination
proof (relation "measure (\<lambda>(fs, old_file, base, suffix).
         card {k. suffix \<le> k \<and> path_exists fs (join (dirname old_file) (new_name_of base k))})",
       goal_cases)
  case 1
  show ?case by simp
next
  case (2 fs old_file base suffix)
  let ?T = "\<lambda>s. {k. s \<le> k \<and> path_exists fs (join (dirname old_file) (new_name_of base k))}"
  have fin: "finite (?T suffix)"
    using finite_taken_suffixes [of fs "dirname old_file" base] by simp
  have "suffix \<in> ?T suffix" using 2 by simp
  moreover have "suffix \<notin> ?T (Suc suffix)" by simp
  moreover have "?T (Suc suffix) \<subseteq> ?T suffix" by auto
  ultimately have "?T (Suc suffix) \<subset> ?T suffix" by blast
  then have "card (?T (Suc suffix)) < card (?T suffix)"
    using fin by (rule psubset_card_mono [rotated])
  then show ?case by simp
qed

text \<open>
  What the program prints: \<open>print(repr(s))\<close>, a fixed line, and the failure line of
  \<open>rename_jpeg\<close> with the path and the exception it names.
\<close>

datatype out = PrintRepr string | PrintLine string | PrintFailed string py_error

text \<open>
  \<open>rename_jpeg\<close>: the \<open>try\<close> block covers \<open>os.rename\<close> and
  \<open>move_jpeg_to_directory\<close>; an exception of either is printed and the file system
  stays as it was when the exception was raised. \<open>uploaded_by\<close> is not used.
\<close>

definition rename_jpeg ::
  "filesystem \<Rightarrow> string \<Rightarrow> int \<Rightarrow> string option \<Rightarrow> string option \<Rightarrow> string option
     \<Rightarrow> string option \<Rightarrow> filesystem \<times> out list" where
  "rename_jpeg fs old_file page_number description uploaded_by taken_date job_number =
     (let base = new_name_base description page_number taken_date job_number;
          suffix = dedup_suffix fs old_file base 0;
          new_name = new_name_of base suffix;
          new_file = join (dirname old_file) new_name
      in case rename fs old_file new_file of
           Inl e \<Rightarrow> (fs, [PrintFailed old_file e])
         | Inr fs1 \<Rightarrow>
             (case move_jpeg_to_directory fs1 new_file description of
                (fs2, None) \<Rightarrow> (fs2, [])
              | (fs2, Some e) \<Rightarrow> (fs2, [PrintFailed old_file e])))"

section \<open>Downloading and the driver\<close>

text \<open>
  The collaborators are inputs of the model. A page of a document carries the text and
  the hyperlink URIs that \<open>pdfplumber\<close> extracts and the text that \<open>PyPDF2\<close> extracts;
  \<open>documents\<close> gives the pages of the document at a path (\<open>None\<close>: it cannot be
  opened); \<open>http\<close> gives the body that \<open>requests.get\<close> returns for a URL (\<open>None\<close>:
  the request raises).
\<close>

record page =
  plumber_text :: string
  hyperlinks :: "string list"
  reader_text :: string

record environment =
  documents :: "string \<Rightarrow> page list option"
  http :: "string \<Rightarrow> string option"

definition download_jpeg ::
  "environment \<Rightarrow> filesystem \<Rightarrow> string \<Rightarrow> string \<Rightarrow> int \<Rightarrow> string
     \<Rightarrow> py_error + (filesystem \<times> string \<times> int)" where
  "download_jpeg env fs url path count section_title =
     (case http env url of
        None \<Rightarrow> Inl RequestException
      | Some content \<Rightarrow>
          (let filename = join path (section_title @ ''_'' @ str_int count @ ''.jpeg'')
           in case write_file fs filename content of
                Inl e \<Rightarrow> Inl e
              | Inr fs1 \<Rightarrow> Inr (fs1, filename, count)))"

text \<open>
  \<open>download_jpegs_from_pdf\<close>. The first loop parses every page and submits one download
  per hyperlink, with the page number counted from 1; an exception of the parser leaves
  the function. The second loop takes the results. The thread pool runs the downloads
  in an order of its own; the model runs them in the order of submission. All downloads
  of one page write the same file name, so the dictionary does not depend on the order;
  with several hyperlinks on a page, or several failing downloads, the contents of the
  file and the exception that surfaces do, and the model gives those of the order of
  submission. An exception ends the function and the model keeps no file system for
  it: the files that downloads already submitted have written are not described.
\<close>

type_synonym task = "string \<times> string \<times> int \<times> string"

fun submit_pages :: "string \<Rightarrow> nat \<Rightarrow> page list \<Rightarrow> py_error + task list" where
  "submit_pages directory page_number [] = Inr []"
| "submit_pages directory page_number (pg # pgs) =
     (case parse_text_to_fields (plumber_text pg) of
        Inl e \<Rightarrow> Inl e
      | Inr (uploaded_by, taken_date, upload_date, section_title, job_number) \<Rightarrow>
          (case submit_pages directory (Suc page_number) pgs of
             Inl e \<Rightarrow> Inl e
           | Inr futures \<Rightarrow>
               Inr (map (\<lambda>link. (link, directory, int page_number + 1, section_title))
                        (hyperlinks pg) @ futures)))"

fun collect_results ::
  "environment \<Rightarrow> filesystem \<Rightarrow> (int \<rightharpoonup> string) \<Rightarrow> task list
     \<Rightarrow> py_error + (filesystem \<times> (int \<rightharpoonup> string))" where
  "collect_results env fs jpeg_files [] = Inr (fs, jpeg_files)"
| "collect_results env fs jpeg_files ((url, path, count, section_title) # futures) =
     (case download_jpeg env fs url path count section_title of
        Inl e \<Rightarrow> Inl e
      | Inr (fs1, jpeg_file, page_number) \<Rightarrow>
          collect_results env fs1 (jpeg_files(page_number \<mapsto> jpeg_file)) futures)"

definition download_jpegs_from_pdf ::
  "environment \<Rightarrow> filesystem \<Rightarrow> string \<Rightarrow> string
     \<Rightarrow> py_error + (filesystem \<times> (int \<rightharpoonup> string))" where
  "download_jpegs_from_pdf env fs pdf_file directory =
     (case documents env pdf_file of
        None \<Rightarrow> Inl FileNotFoundError
      | Some pages \<Rightarrow>
          (case submit_pages directory 0 pages of
             Inl e \<Rightarrow> Inl e
           | Inr futures \<Rightarrow> collect_results env fs Map.empty futures))"

text \<open>
  The loop of \<open>process_pdf\<close> over the page numbers from 1. Each page is parsed before
  the dictionary is consulted. Besides the file system and the printed lines, the
  model returns the page numbers for which \<open>rename_jpeg\<close> was called, in order.
\<close>

fun rename_pages ::
  "filesystem \<Rightarrow> (int \<rightharpoonup> string) \<Rightarrow> int \<Rightarrow> page list
     \<Rightarrow> py_error + (filesystem \<times> out list \<times> int list)" where
  "rename_pages fs jpeg_files page_number [] = Inr (fs, [], [])"
| "rename_pages fs jpeg_files page_number (pg # pgs) =
     (case parse_text_to_fields (reader_text pg) of
        Inl e \<Rightarrow> Inl e
      | Inr (uploaded_by, taken_date, upload_date, description, job_number) \<Rightarrow>
          (case jpeg_files page_number of
             None \<Rightarrow> rename_pages fs jpeg_files (page_number + 1) pgs
           | Some jpeg_file \<Rightarrow>
               (let (fs1, printed) =
                      rename_jpeg fs jpeg_file page_number (Some description) uploaded_by
                        taken_date job_number
                in case rename_pages fs1 jpeg_files (page_number + 1) pgs of
                     Inl e \<Rightarrow> Inl e
                   | Inr (fs2, printed', called) \<Rightarrow>
                       Inr (fs2, printed @ printed', page_number # called))))"

definition process_pdf ::
  "environment \<Rightarrow> filesystem \<Rightarrow> string \<Rightarrow> string
     \<Rightarrow> py_error + (filesystem \<times> out list \<times> int list)" where
  "process_pdf env fs pdf_file directory =
     (case makedirs fs directory of
        Inl e \<Rightarrow> Inl e
      | Inr fs1 \<Rightarrow>
          (case download_jpegs_from_pdf env fs1 pdf_file directory of
             Inl e \<Rightarrow> Inl e
           | Inr (fs2, jpeg_files) \<Rightarrow>
               (case documents env pdf_file of
                  None \<Rightarrow> Inl FileNotFoundError
                | Some pages \<Rightarrow> rename_pages fs2 jpeg_files 1 pages)))"

section \<open>The command line\<close>

text \<open>
  The main block. \<open>sys.argv[i]\<close> raises \<open>IndexError\<close> when the list is too short. The
  outcome is an uncaught exception, \<open>sys.exit\<close> with a status, or the normal end with
  the final file system.
\<close>

datatype outcome = Raised py_error | Exit int | Done filesystem

definition argv_get :: "string list \<Rightarrow> nat \<Rightarrow> py_error + string" where
  "argv_get argv i = (if i < length argv then Inr (argv ! i) else Inl IndexError)"

definition usage :: string where
  "usage = ''Invalid arguments. Usage: <script_name> <path_to_pdf> <save_directory>''"

definition main :: "environment \<Rightarrow> filesystem \<Rightarrow> string list \<Rightarrow> out list \<times> outcome" where
  "main env fs argv =
     (case argv_get argv 1 of
        Inl e \<Rightarrow> ([], Raised e)
      | Inr pdf_file \<Rightarrow>
          (case argv_get argv 2 of
             Inl e \<Rightarrow> ([], Raised e)
           | Inr directory \<Rightarrow>
               (let directory' =
                      replace_py [CHR 0x22] []
                        (replace_py [CHR 0x5C, CHR 0x5C] [CHR 0x5C] directory);
                    printed = [PrintRepr directory, PrintRepr directory']
                in if length argv \<noteq> 3 then (printed @ [PrintLine usage], Exit 1)
                   else (case process_pdf env fs pdf_file directory' of
                           Inl e \<Rightarrow> (printed, Raised e)
                         | Inr (fs1, printed', called) \<Rightarrow> (printed @ printed', Done fs1)))))"

text \<open>
  The equations of \<open>ancestors\<close> and of the loop are unfolded by hand in the proofs.
\<close>

declare ancestors.simps [simp del]

declare dedup_suffix.simps [simp del]

section \<open>Example inputs\<close>

text \<open>
  A directory \<open>out\<close> with two downloaded files, as two runs of the program over
  documents with the same description, page and job number leave them there.
\<close>

definition two_temp_files :: filesystem where
  "two_temp_files =
     \<lparr>files = fmupd ''out/a_1.jpeg'' ''AAA'' (fmupd ''out/b_1.jpeg'' ''BBB'' fmempty),
      dirs = {|''out''|}\<rparr>"


text \<open>
  A report of two pages: a photo page with its metadata and one hyperlink, and a page
  with no text and no hyperlink. Every URL answers with the same body.
\<close>

definition photo_page :: page where
  "photo_page =
     \<lparr>plumber_text = ''Job #: 1234\<newline>Uploaded By\<newline>Joe Smith\<newline>Roof leak\<newline>Description\<newline>'',
      hyperlinks = [''http://host/1.jpg''],
      reader_text = ''Job #: 1234\<newline>Uploaded By\<newline>Joe Smith\<newline>Roof leak\<newline>Description\<newline>''\<rparr>"

definition blank_page :: page where
  "blank_page = \<lparr>plumber_text = [], hyperlinks = [], reader_text = []\<rparr>"

definition cover_page :: page where
  "cover_page =
     \<lparr>plumber_text = ''Cover\<newline>Description\<newline>'', hyperlinks = [],
      reader_text = ''Cover\<newline>Description\<newline>''\<rparr>"

definition report_env :: environment where
  "report_env =
     \<lparr>documents = (\<lambda>p. if p = ''report.pdf'' then Some [photo_page, blank_page]
                        else if p = ''covered.pdf'' then Some [photo_page, cover_page]
                        else None),
      http = (\<lambda>u. Some ''JPEG'')\<rparr>"

definition empty_fs :: filesystem where
  "empty_fs = \<lparr>files = fmempty, dirs = {||}\<rparr>"

section \<open>Facts about the string primitives\<close>

text \<open>
  Replacing a single character is a map over the string, and deleting it a filter.
\<close>

lemma replace_py_char: "replace_py [a] [b] s = map (\<lambda>c. if c = a then b else c) s"
  by (induction s) auto

lemma replace_py_delete: "replace_py [a] [] s = filter (\<lambda>c. c \<noteq> a) s"
  by (induction s) auto



text \<open>
  \<open>strip\<close> cuts whitespace off both ends and nothing else: what it cuts is
  whitespace, and what is left neither starts nor ends with whitespace.
\<close>

lemma strip_decomp:
  "\<exists>a b. s = a @ strip s @ b \<and> (\<forall>c \<in> set a. isspace c) \<and> (\<forall>c \<in> set b. isspace c)"
proof -
  let ?m = "dropWhile isspace s"
  let ?a = "takeWhile isspace s"
  let ?b = "rev (takeWhile isspace (rev ?m))"
  have "rev ?m = takeWhile isspace (rev ?m) @ dropWhile isspace (rev ?m)"
    by simp
  then have "?m = strip s @ ?b"
    unfolding strip_def by (metis rev_append rev_rev_ident)
  then have "s = ?a @ strip s @ ?b"
    by (metis takeWhile_dropWhile_id)
  moreover have "\<forall>c \<in> set ?a. isspace c"
    by (auto dest: set_takeWhileD)
  moreover have "\<forall>c \<in> set ?b. isspace c"
    by (auto dest: set_takeWhileD)
  ultimately show ?thesis by blast
qed

lemma strip_Nil_iff: "strip s = [] \<longleftrightarrow> (\<forall>c \<in> set s. isspace c)"
proof
  assume a: "strip s = []"
  have "dropWhile isspace s = []"
  proof (rule ccontr)
    assume ne: "dropWhile isspace s \<noteq> []"
    then have "\<not> isspace (hd (dropWhile isspace s))"
      by (rule hd_dropWhile)
    moreover have "hd (dropWhile isspace s) \<in> set (rev (dropWhile isspace s))"
      using ne by simp
    moreover from a have "dropWhile isspace (rev (dropWhile isspace s)) = []"
      by (simp add: strip_def)
    then have "\<forall>x \<in> set (rev (dropWhile isspace s)). isspace x"
      by (simp only: dropWhile_eq_Nil_conv)
    ultimately show False by blast
  qed
  then show "\<forall>c \<in> set s. isspace c"
    by (simp only: dropWhile_eq_Nil_conv)
next
  assume "\<forall>c \<in> set s. isspace c"
  then have d: "dropWhile isspace s = []"
    by (simp only: dropWhile_eq_Nil_conv)
  show "strip s = []"
    unfolding strip_def d by simp
qed

lemma strip_ends:
  assumes "strip s \<noteq> []"
  shows "\<not> isspace (hd (strip s)) \<and> \<not> isspace (last (strip s))"
proof -
  let ?m = "dropWhile isspace s"
  let ?r = "dropWhile isspace (rev ?m)"
  have r: "?r \<noteq> []" using assms by (simp add: strip_def)
  have m: "?m \<noteq> []"
  proof
    assume e: "?m = []"
    have "?r = []" unfolding e by simp
    with r show False by contradiction
  qed
  have "last (strip s) = hd ?r"
    using r by (simp add: strip_def last_rev)
  moreover have "\<not> isspace (hd ?r)"
    using r by (rule hd_dropWhile)
  moreover have "hd (strip s) = last ?r"
    using r by (simp add: strip_def hd_rev)
  moreover have "last ?r = last (rev ?m)"
  proof -
    have "rev ?m = takeWhile isspace (rev ?m) @ ?r" by simp
    then show ?thesis using r by (metis last_appendR)
  qed
  moreover have "last (rev ?m) = hd ?m"
    using m by (simp add: last_rev)
  moreover have "\<not> isspace (hd ?m)"
    using m by (rule hd_dropWhile)
  ultimately show ?thesis by simp
qed

text \<open>
  \<open>split_py\<close> always returns a piece. Its first piece is the text before the first
  occurrence of the separator: a prefix of the string, with no occurrence of the
  separator starting inside it, and followed by the separator unless it is the whole
  string.
\<close>

lemma split_py_not_Nil: "split_py sep s \<noteq> []"
  by (induction sep s rule: split_py.induct) (auto split: list.splits)

lemma startswith_append: "startswith p s \<longleftrightarrow> (\<exists>r. s = p @ r)"
  by (induction p s rule: startswith.induct) auto

lemma hd_split_py_prefix: "\<exists>r. s = hd (split_py sep s) @ r"
proof (induction sep s rule: split_py.induct)
  case (1 sep)
  show ?case by simp
next
  case (2 sep c cs)
  show ?case
  proof (cases "sep \<noteq> [] \<and> startswith sep (c # cs)")
    case True
    then show ?thesis by simp
  next
    case False
    with 2(2) obtain r where "cs = hd (split_py sep cs) @ r" by blast
    then have "c # cs = (c # hd (split_py sep cs)) @ r" by simp
    moreover have "hd (split_py sep (c # cs)) = c # hd (split_py sep cs)"
      using False split_py_not_Nil [of sep cs] by (auto split: list.splits)
    ultimately show ?thesis by metis
  qed
qed

lemma hd_split_py_first:
  assumes "sep \<noteq> []" and "n < length (hd (split_py sep s))"
  shows "\<not> startswith sep (drop n s)"
  using assms
proof (induction sep s arbitrary: n rule: split_py.induct)
  case (1 sep)
  then show ?case by simp
next
  case (2 sep c cs)
  show ?case
  proof (cases "startswith sep (c # cs)")
    case True
    with 2(3,4) show ?thesis by simp
  next
    case False
    have hd_eq: "hd (split_py sep (c # cs)) = c # hd (split_py sep cs)"
      using False split_py_not_Nil [of sep cs] by (auto split: list.splits)
    show ?thesis
    proof (cases n)
      case 0
      with False show ?thesis by simp
    next
      case (Suc k)
      with 2(4) hd_eq have "k < length (hd (split_py sep cs))" by simp
      with 2(2) [of k] False 2(3) have "\<not> startswith sep (drop k cs)" by blast
      with Suc show ?thesis by simp
    qed
  qed
qed

lemma hd_split_py_sep:
  assumes "sep \<noteq> []" and "hd (split_py sep s) \<noteq> s"
  shows "\<exists>r. s = hd (split_py sep s) @ sep @ r"
  using assms
proof (induction sep s rule: split_py.induct)
  case (1 sep)
  then show ?case by simp
next
  case (2 sep c cs)
  show ?case
  proof (cases "startswith sep (c # cs)")
    case True
    with 2(3) show ?thesis by (simp add: startswith_append)
  next
    case False
    have hd_eq: "hd (split_py sep (c # cs)) = c # hd (split_py sep cs)"
      using False split_py_not_Nil [of sep cs] by (auto split: list.splits)
    with 2(4) have "hd (split_py sep cs) \<noteq> cs" by simp
    with 2(2) False 2(3) obtain r where "cs = hd (split_py sep cs) @ sep @ r" by blast
    then have "c # cs = (c # hd (split_py sep cs)) @ sep @ r" by simp
    with hd_eq show ?thesis by metis
  qed
qed

text \<open>
  Splitting on one character: no piece contains it, and the pieces, each followed by
  it, give the string back.
\<close>

lemma split_py_char_pieces: "p \<in> set (split_py [c] s) \<Longrightarrow> c \<notin> set p"
proof (induction s arbitrary: p)
  case Nil
  then show ?case by simp
next
  case (Cons x xs)
  show ?case
  proof (cases "x = c")
    case True
    with Cons show ?thesis by auto
  next
    case False
    obtain q qs where q: "split_py [c] xs = q # qs"
      using split_py_not_Nil [of "[c]" xs] by (cases "split_py [c] xs") auto
    with False Cons.prems have "p = x # q \<or> p \<in> set qs" by auto
    with Cons.IH q False show ?thesis by auto
  qed
qed

lemma split_py_char_concat: "concat (map (\<lambda>p. p @ [c]) (split_py [c] s)) = s @ [c]"
proof (induction s)
  case Nil
  show ?case by simp
next
  case (Cons x xs)
  show ?case
  proof (cases "x = c")
    case True
    with Cons show ?thesis by simp
  next
    case False
    obtain q qs where q: "split_py [c] xs = q # qs"
      using split_py_not_Nil [of "[c]" xs] by (cases "split_py [c] xs") auto
    with False Cons show ?thesis by simp
  qed
qed

lemma split_py_char_covers:
  "x \<in> set s \<Longrightarrow> x \<noteq> c \<Longrightarrow> \<exists>p \<in> set (split_py [c] s). x \<in> set p"
proof (induction s)
  case Nil
  then show ?case by simp
next
  case (Cons y ys)
  obtain q qs where q: "split_py [c] ys = q # qs"
    using split_py_not_Nil [of "[c]" ys] by (cases "split_py [c] ys") auto
  show ?case
  proof (cases "y = c")
    case True
    with Cons show ?thesis by auto
  next
    case False
    show ?thesis
    proof (cases "x = y")
      case True
      with False q show ?thesis by simp
    next
      case ne: False
      with Cons obtain p where "p \<in> set (q # qs)" and "x \<in> set p"
        using q by auto
      with False q show ?thesis by auto
    qed
  qed
qed

section \<open>Properties of the field cleaners\<close>

lemma clean_field_cleaned:
  "replace_py '' '' ''_'' (strip x) = map (\<lambda>c. if c = CHR '' '' then CHR ''_'' else c) (strip x)"
  by (rule replace_py_char)

text \<open>
  C1, as the source has it. For a non-empty match list and a positive \<open>limit\<close>, let
  \<open>f\<close> be the first element, stripped, with every space replaced by an underscore.
  When \<open>f\<close> has at least \<open>limit\<close> characters, \<open>clean_field\<close> returns the first
  \<open>limit\<close> characters of \<open>f\<close>: the value is cut, not kept whole. When \<open>f\<close> is shorter,
  it returns \<open>f\<close> padded on the right with underscores. In both cases the result has
  exactly \<open>limit\<close> characters.
\<close>

theorem clean_field_limit:
  assumes "field \<noteq> []" and "0 < limit"
  shows "clean_field field (Some limit) =
           Some (let f = map (\<lambda>c. if c = CHR '' '' then CHR ''_'' else c) (strip (hd field))
                 in if limit \<le> int (length f) then take (nat limit) f
                    else f @ replicate (nat limit - length f) CHR ''_'')
         \<and> (\<exists>s. clean_field field (Some limit) = Some s \<and> int (length s) = limit)"
proof -
  let ?f = "map (\<lambda>c. if c = CHR '' '' then CHR ''_'' else c) (strip (hd field))"
  have pad: "nat (limit - int (length ?f)) = nat limit - length ?f"
    by simp
  have eq: "clean_field field (Some limit) =
          Some (if limit \<le> int (length ?f) then take (nat limit) ?f
                else ?f @ replicate (nat limit - length ?f) CHR ''_'')"
    using assms
    by (simp add: clean_field_def clean_field_cleaned slice_to_def Let_def pad del: length_map)
  have len: "int (length (if limit \<le> int (length ?f) then take (nat limit) ?f
                else ?f @ replicate (nat limit - length ?f) CHR ''_'')) = limit"
    using assms(2) by (auto simp del: length_map)
  show ?thesis
    using eq len by (simp add: Let_def del: length_map)
qed

theorem clean_field_limit_witness:
  "clean_field [''Alice Bob''] (Some 5) = Some ''Alice''
   \<and> clean_field [''Al''] (Some 5) = Some ''Al___''
   \<and> clean_field [''  Alice  ''] (Some 5) = Some ''Alice''"
  using clean_field_limit [of "[''Alice Bob'']" 5] clean_field_limit [of "[''Al'']" 5]
    clean_field_limit [of "[''  Alice  '']" 5]
  by (simp add: strip_def isspace_def numeral_3_eq_3)

text \<open>
  The claim that a value of at least \<open>limit\<close> characters is returned whole fails on its
  own example: the nine characters of \<open>Alice_Bob\<close> are cut to five.
\<close>

theorem clean_field_floor_counterexample:
  "clean_field [''Alice Bob''] (Some 5) = Some ''Alice''
   \<and> clean_field [''Alice Bob''] (Some 5) \<noteq> Some ''Alice_Bob''"
  by (simp add: clean_field_def strip_def isspace_def slice_to_def)

text \<open>
  The value \<open>clean_date\<close> works on: the first element cut before its first \<open>" at"\<close>,
  stripped, with every slash replaced by an underscore.
\<close>

lemma clean_date_unfold:
  "date_field \<noteq> [] \<Longrightarrow>
   clean_date date_field =
     Some (let d = map (\<lambda>c. if c = CHR ''/'' then CHR ''_'' else c)
                       (strip (hd (split_py '' at'' (hd date_field))))
           in if filter (\<lambda>c. c \<noteq> CHR '' '') d = ''UploadDate'' then [] else d)"
  by (simp add: clean_date_def replace_py_char replace_py_delete Let_def)

text \<open>
  C4, as the source has it. For a non-empty match list \<open>clean_date\<close> returns the first
  element cut before its first \<open>" at"\<close>, stripped, with every slash replaced by an
  underscore, unless that value without its spaces is \<open>UploadDate\<close>, when it returns
  the empty string. Spaces are kept: only slashes become underscores.
\<close>

theorem clean_date_value:
  assumes "date_field \<noteq> []"
  shows "clean_date date_field =
           Some (let d = map (\<lambda>c. if c = CHR ''/'' then CHR ''_'' else c)
                             (strip (hd (split_py '' at'' (hd date_field))))
                 in if filter (\<lambda>c. c \<noteq> CHR '' '') d = ''UploadDate'' then [] else d)"
  using assms by (rule clean_date_unfold)

theorem clean_date_value_witness:
  "clean_date [''March 1, 2020 at 10:00 PM''] = Some ''March 1, 2020''
   \<and> clean_date [''03/01/2020 at 10:00 PM''] = Some ''03_01_2020''"
  using clean_date_value [of "[''March 1, 2020 at 10:00 PM'']"]
    clean_date_value [of "[''03/01/2020 at 10:00 PM'']"]
  by (simp add: strip_def isspace_def)

text \<open>The example of the claim: the spaces of the date are still there.\<close>

theorem clean_date_example_counterexample:
  "clean_date [''March 1, 2020 at 10:00 PM''] = Some ''March 1, 2020''
   \<and> clean_date [''March 1, 2020 at 10:00 PM''] \<noteq> Some ''March_1,_2020''"
  by (simp add: clean_date_def strip_def isspace_def)

text \<open>
  C7. For a non-empty match list whose first element, cut before its first \<open>" at"\<close>,
  stripped, with slashes replaced by underscores and all spaces deleted, is
  \<open>UploadDate\<close>, \<open>clean_date\<close> returns the empty string, which is not \<open>None\<close>.
\<close>

theorem clean_date_sentinel:
  assumes "date_field \<noteq> []"
    and "filter (\<lambda>c. c \<noteq> CHR '' '')
           (map (\<lambda>c. if c = CHR ''/'' then CHR ''_'' else c)
                (strip (hd (split_py '' at'' (hd date_field))))) = ''UploadDate''"
  shows "clean_date date_field = Some [] \<and> clean_date date_field \<noteq> None"
  using assms by (simp add: clean_date_unfold Let_def)

theorem clean_date_sentinel_witness:
  "clean_date [''UploadDate''] = Some [] \<and> clean_date [''Upload Date at 5:00 PM''] = Some []"
  using clean_date_sentinel [of "[''UploadDate'']"]
    clean_date_sentinel [of "[''Upload Date at 5:00 PM'']"]
  by (simp add: strip_def isspace_def)

text \<open>
  A first element that is not blank has a non-blank line, so \<open>clean_description\<close>
  finds a last line.
\<close>

lemma kept_lines_not_Nil:
  assumes "strip x \<noteq> []"
  shows "filter (\<lambda>line. strip line \<noteq> []) (split_py ''\<newline>'' (strip x)) \<noteq> []"
proof -
  have nsp: "\<not> isspace (hd (strip x))"
    using strip_ends [OF assms] by simp
  have mem: "hd (strip x) \<in> set (strip x)"
    using assms by simp
  have "isspace CHR ''\<newline>''"
    by (simp add: isspace_def)
  with nsp have ne: "hd (strip x) \<noteq> CHR ''\<newline>''"
    by metis
  obtain p where p: "p \<in> set (split_py [CHR ''\<newline>''] (strip x))"
    and hp: "hd (strip x) \<in> set p"
    using split_py_char_covers [OF mem ne] by blast
  from nsp hp have "strip p \<noteq> []"
    by (auto simp: strip_Nil_iff)
  with p show ?thesis
    by (auto simp: filter_empty_conv)
qed

text \<open>
  C5, as the source has it. For a non-empty match list whose first element is not
  blank, \<open>clean_description\<close> strips the first element, splits it on newlines, drops
  the blank lines, keeps the last line that is left, and replaces every space and every
  underscore in it by a hyphen.
\<close>

theorem clean_description_last_line:
  assumes "description_field \<noteq> []" and "strip (hd description_field) \<noteq> []"
  shows "clean_description description_field =
           Inr (map (\<lambda>c. if c = CHR '' '' \<or> c = CHR ''_'' then CHR ''-'' else c)
                    (last (filter (\<lambda>line. strip line \<noteq> [])
                                  (split_py ''\<newline>'' (strip (hd description_field))))))"
proof -
  let ?kept = "filter (\<lambda>line. strip line \<noteq> [])
                 (split_py ''\<newline>'' (strip (hd description_field)))"
  have "?kept \<noteq> []"
    using assms(2) by (rule kept_lines_not_Nil)
  then have "last_line description_field = Some (last ?kept)"
    using assms(1) by (simp add: last_line_def Let_def)
  moreover have "replace_py ''_'' ''-'' (replace_py '' '' ''-'' y)
                 = map (\<lambda>c. if c = CHR '' '' \<or> c = CHR ''_'' then CHR ''-'' else c) y" for y
    by (simp add: replace_py_char)
  ultimately show ?thesis
    by (simp add: clean_description_def)
qed

theorem clean_description_last_line_witness:
  "clean_description [''Foo\<newline>\<newline>Bar Baz\<newline>''] = Inr ''Bar-Baz''
   \<and> clean_description [''Foo\<newline>\<newline>Bar Baz\<newline>Description''] = Inr ''Description''"
  using clean_description_last_line [of "[''Foo\<newline>\<newline>Bar Baz\<newline>'']"]
    clean_description_last_line [of "[''Foo\<newline>\<newline>Bar Baz\<newline>Description'']"]
  by (simp add: strip_def isspace_def)

text \<open>
  The example of the claim: the element ends with the line \<open>Description\<close>, which is
  its last non-blank line.
\<close>

theorem clean_description_example_counterexample:
  "clean_description [''Foo\<newline>\<newline>Bar Baz\<newline>Description''] = Inr ''Description''
   \<and> clean_description [''Foo\<newline>\<newline>Bar Baz\<newline>Description''] \<noteq> Inr ''Bar-Baz''"
  by (simp add: clean_description_def last_line_def strip_def isspace_def)

section \<open>Properties of the field parser\<close>

text \<open>
  Without a match of the description pattern the parser does not return: the exception
  of \<open>clean_description\<close> leaves \<open>parse_text_to_fields\<close>.
\<close>

lemma clean_description_Nil: "clean_description [] = Inl AttributeError"
  by (simp add: clean_description_def last_line_def)

lemma parse_raises_without_description:
  "description_matches text = [] \<Longrightarrow> parse_text_to_fields text = Inl AttributeError"
  by (simp add: parse_text_to_fields_def clean_description_Nil)

lemma parse_returns_with_description:
  assumes "description_matches text \<noteq> []"
    and "strip (hd (description_matches text)) \<noteq> []"
  shows "\<exists>r. parse_text_to_fields text = Inr r"
proof -
  have "\<exists>d. clean_description (description_matches text) = Inr d"
  proof -
    have "filter (\<lambda>line. strip line \<noteq> [])
            (split_py ''\<newline>'' (strip (hd (description_matches text)))) \<noteq> []"
      using assms(2) by (rule kept_lines_not_Nil)
    then show ?thesis
      using assms(1) by (simp add: clean_description_def last_line_def Let_def)
  qed
  then show ?thesis
    by (auto simp: parse_text_to_fields_def Let_def)
qed

text \<open>
  C3: the code raises where the claim says it returns null. On an empty match list
  \<open>clean_description\<close> raises \<open>AttributeError\<close>, and so does the parser on a page text
  without the word \<open>Description\<close>, here the empty text and a text with an uploader
  only; a match that is blank raises as well.
\<close>

theorem parse_text_to_fields_raises:
  "clean_description [] = Inl AttributeError
   \<and> clean_description [''  \<newline> ''] = Inl AttributeError
   \<and> parse_text_to_fields [] = Inl AttributeError
   \<and> parse_text_to_fields ''Uploaded By\<newline>Joe Smith\<newline>'' = Inl AttributeError"
  by (simp add: parse_text_to_fields_def description_matches_def clean_description_def
      last_line_def strip_def isspace_def)

text \<open>
  C10. Whenever the \<open>Uploaded By\<close> pattern matches and the parser returns, the
  \<open>uploaded_by\<close> it returns is a string of exactly 5 characters: the first match,
  stripped and with spaces replaced by underscores, cut to 5 characters when it has 5 or
  more and padded on the right with underscores when it has fewer.
\<close>

theorem parse_uploaded_by_length:
  assumes "uploaded_by_matches text \<noteq> []"
    and "parse_text_to_fields text =
           Inr (uploaded_by, taken_date, upload_date, description, job_number)"
  shows "\<exists>s. uploaded_by = Some s \<and> length s = 5
           \<and> s = (let f = map (\<lambda>c. if c = CHR '' '' then CHR ''_'' else c)
                             (strip (hd (uploaded_by_matches text)))
                  in if 5 \<le> length f then take 5 f
                     else f @ replicate (5 - length f) CHR ''_'')"
proof -
  let ?f = "map (\<lambda>c. if c = CHR '' '' then CHR ''_'' else c)
              (strip (hd (uploaded_by_matches text)))"
  let ?s = "if 5 \<le> length ?f then take 5 ?f else ?f @ replicate (5 - length ?f) CHR ''_''"
  have pad: "nat (5 - int (length ?f)) = 5 - length ?f"
    by simp
  have "uploaded_by = clean_field (uploaded_by_matches text) (Some 5)"
    using assms(2) by (auto simp: parse_text_to_fields_def Let_def split: sum.splits)
  also have "\<dots> = Some ?s"
    using assms(1)
    by (simp add: clean_field_def clean_field_cleaned slice_to_def Let_def pad del: length_map)
  finally have "uploaded_by = Some ?s" .
  moreover have "length ?s = 5"
    by (auto simp del: length_map)
  ultimately show ?thesis
    by (simp add: Let_def del: length_map)
qed

theorem parse_uploaded_by_length_witness:
  "uploaded_by_matches ''Uploaded By\<newline>Joe Smith\<newline>Roof leak\<newline>Description'' \<noteq> []
   \<and> parse_text_to_fields ''Uploaded By\<newline>Joe Smith\<newline>Roof leak\<newline>Description''
       = Inr (Some ''Joe_S'', None, None, ''Roof-leak'', None)
   \<and> (\<exists>s. Some ''Joe_S'' = Some s \<and> length s = 5)"
proof -
  let ?text = "''Uploaded By\<newline>Joe Smith\<newline>Roof leak\<newline>Description''"
  have m: "uploaded_by_matches ?text \<noteq> []"
    by (simp add: uploaded_by_matches_def)
  have p: "parse_text_to_fields ?text = Inr (Some ''Joe_S'', None, None, ''Roof-leak'', None)"
    by (simp add: parse_text_to_fields_def uploaded_by_matches_def taken_date_matches_def
        upload_date_matches_def description_matches_def job_number_matches_def
        clean_field_def clean_date_def clean_description_def last_line_def
        strip_def isspace_def slice_to_def)
  from parse_uploaded_by_length [OF m p] have "\<exists>s. Some ''Joe_S'' = Some s \<and> length s = 5"
    by blast
  with m p show ?thesis by blast
qed

section \<open>Properties of the output name\<close>












section \<open>Properties of the command line\<close>

text \<open>
  C9. With fewer than 3 arguments the main block raises \<open>IndexError\<close> and has printed
  nothing, the usage message included: \<open>sys.argv[1]\<close> and \<open>sys.argv[2]\<close> are read
  before the count is checked. With more than 3 arguments it prints the directory
  twice, then the usage message, and exits with status 1.
\<close>

theorem main_argument_count:
  "(length argv < 3 \<longrightarrow> main env fs argv = ([], Raised IndexError))
   \<and> (3 < length argv \<longrightarrow>
        main env fs argv =
          ([PrintRepr (argv ! 2),
            PrintRepr (replace_py [CHR 0x22] []
                         (replace_py [CHR 0x5C, CHR 0x5C] [CHR 0x5C] (argv ! 2))),
            PrintLine usage],
           Exit 1))"
  by (auto simp: main_def argv_get_def Let_def)

theorem main_argument_count_witness:
  "main \<lparr>documents = (\<lambda>p. None), http = (\<lambda>u. None)\<rparr> \<lparr>files = fmempty, dirs = {||}\<rparr>
     [''prog''] = ([], Raised IndexError)
   \<and> main \<lparr>documents = (\<lambda>p. None), http = (\<lambda>u. None)\<rparr> \<lparr>files = fmempty, dirs = {||}\<rparr>
       [''prog'', ''a.pdf''] = ([], Raised IndexError)
   \<and> main \<lparr>documents = (\<lambda>p. None), http = (\<lambda>u. None)\<rparr> \<lparr>files = fmempty, dirs = {||}\<rparr>
       [''prog'', ''a.pdf'', ''out'', ''extra'']
       = ([PrintRepr ''out'', PrintRepr ''out'', PrintLine usage], Exit 1)"
  using main_argument_count [of "[''prog'']"
          "\<lparr>documents = (\<lambda>p. None), http = (\<lambda>u. None)\<rparr>" "\<lparr>files = fmempty, dirs = {||}\<rparr>"]
    main_argument_count [of "[''prog'', ''a.pdf'']"
          "\<lparr>documents = (\<lambda>p. None), http = (\<lambda>u. None)\<rparr>" "\<lparr>files = fmempty, dirs = {||}\<rparr>"]
    main_argument_count [of "[''prog'', ''a.pdf'', ''out'', ''extra'']"
          "\<lparr>documents = (\<lambda>p. None), http = (\<lambda>u. None)\<rparr>" "\<lparr>files = fmempty, dirs = {||}\<rparr>"]
  by simp

section \<open>Properties of renaming\<close>





lemma new_name_base_example:
  "new_name_base (Some ''Roof'') 1 (Some []) (Some ''42'') = ''Roof_1_42''"
  by (simp add: new_name_base_def is_word_def str_int_def digits_of_eq)

text \<open>
  C2: the code overwrites where the claim says it adds the suffix \<open>_1\<close>. Two files
  \<open>out/a_1.jpeg\<close> and \<open>out/b_1.jpeg\<close> are renamed with the same description, page
  number, empty date and job number, so with the same base \<open>Roof_1_42\<close>. The first call
  leaves its file at \<open>out/Roof/Roof_1_42.jpeg\<close>. The second call looks for
  \<open>Roof_1_42.jpeg\<close> in \<open>out\<close>, where it is no longer, takes the same name, and its move
  replaces the first file: afterwards one file is left, with the contents of the
  second, and nothing was printed.
\<close>

theorem rename_jpeg_overwrites:
  "(let call1 = rename_jpeg two_temp_files ''out/a_1.jpeg'' 1 (Some ''Roof'') None (Some [])
                  (Some ''42'');
        call2 = rename_jpeg (fst call1) ''out/b_1.jpeg'' 1 (Some ''Roof'') None (Some [])
                  (Some ''42'')
    in new_name_base (Some ''Roof'') 1 (Some []) (Some ''42'') = ''Roof_1_42''
       \<and> fmlookup (files (fst call1)) ''out/Roof/Roof_1_42.jpeg'' = Some ''AAA''
       \<and> fmlookup (files (fst call1)) ''out/b_1.jpeg'' = Some ''BBB''
       \<and> fmlookup (files (fst call2)) ''out/Roof/Roof_1_42.jpeg'' = Some ''BBB''
       \<and> fmlookup (files (fst call2)) ''out/Roof/Roof_1_42_1.jpeg'' = None
       \<and> fmdom' (files (fst call2)) = {''out/Roof/Roof_1_42.jpeg''}
       \<and> snd call1 = [] \<and> snd call2 = [])"
  by (auto simp: rename_jpeg_def new_name_base_example two_temp_files_def dirname_def
      new_name_of_def join_def path_exists_def is_file_def is_dir_def rename_def parent_ok_def
      move_jpeg_to_directory_def join_opt_def makedirs_def basename_def Let_def
      ancestors.simps dedup_suffix.simps)

section \<open>Properties of the driver\<close>

text \<open>
  Where the parser returns on every page, the dictionary of
  \<open>download_jpegs_from_pdf\<close> has exactly the numbers of the pages with a hyperlink
  as keys, and the loop of \<open>process_pdf\<close> calls \<open>rename_jpeg\<close> for exactly the page
  numbers that are keys.
\<close>

lemma collect_results_dom:
  "collect_results env fs jpeg_files futures = Inr (fs', jpeg_files') \<Longrightarrow>
   dom jpeg_files' = dom jpeg_files \<union> (\<lambda>(url, path, count, title). count) ` set futures"
proof (induction futures arbitrary: fs jpeg_files)
  case Nil
  then show ?case by simp
next
  case (Cons f futures)
  obtain url path count title where f: "f = (url, path, count, title)"
    by (cases f) auto
  from Cons.prems f obtain fs1 jpeg_file page_number
    where d: "download_jpeg env fs url path count title = Inr (fs1, jpeg_file, page_number)"
      and r: "collect_results env fs1 (jpeg_files(page_number \<mapsto> jpeg_file)) futures
              = Inr (fs', jpeg_files')"
    by (auto split: sum.splits)
  from d have "page_number = count"
    by (auto simp: download_jpeg_def Let_def split: option.splits sum.splits)
  with Cons.IH [OF r] f show ?case by auto
qed

lemma submit_pages_counts:
  "submit_pages directory n pages = Inr futures \<Longrightarrow>
   (\<lambda>(url, path, count, title). count) ` set futures
   = {int k + 1 | k. n \<le> k \<and> k < n + length pages \<and> hyperlinks (pages ! (k - n)) \<noteq> []}"
proof (induction pages arbitrary: n futures)
  case Nil
  then show ?case by simp
next
  case (Cons pg pgs)
  from Cons.prems obtain uploaded_by taken_date upload_date title job_number
    where parsed: "parse_text_to_fields (plumber_text pg)
                   = Inr (uploaded_by, taken_date, upload_date, title, job_number)"
    by (auto split: sum.splits)
  with Cons.prems obtain rest
    where rest: "submit_pages directory (Suc n) pgs = Inr rest"
      and fut: "futures = map (\<lambda>link. (link, directory, int n + 1, title)) (hyperlinks pg) @ rest"
    by (auto split: sum.splits)
  let ?count = "\<lambda>(url, path, count, title). count"
  have here: "?count ` set (map (\<lambda>link. (link, directory, int n + 1, title)) (hyperlinks pg))
              = (if hyperlinks pg = [] then {} else {int n + 1})"
    by (cases "hyperlinks pg") auto
  have later: "?count ` set rest
        = {int k + 1 | k. Suc n \<le> k \<and> k < Suc n + length pgs \<and> hyperlinks (pgs ! (k - Suc n)) \<noteq> []}"
    using Cons.IH [OF rest] .
  have split: "{int k + 1 | k. n \<le> k \<and> k < n + length (pg # pgs)
                  \<and> hyperlinks ((pg # pgs) ! (k - n)) \<noteq> []}
        = (if hyperlinks pg = [] then {} else {int n + 1})
          \<union> {int k + 1 | k. Suc n \<le> k \<and> k < Suc n + length pgs
                \<and> hyperlinks (pgs ! (k - Suc n)) \<noteq> []}"
    (is "?L = ?H \<union> ?R")
  proof (intro set_eqI iffI)
    fix x
    assume "x \<in> ?L"
    then obtain k where x: "x = int k + 1" and k: "n \<le> k" "k < n + length (pg # pgs)"
      and h: "hyperlinks ((pg # pgs) ! (k - n)) \<noteq> []"
      by blast
    show "x \<in> ?H \<union> ?R"
    proof (cases "k = n")
      case True
      with h x show ?thesis by simp
    next
      case False
      with k have "Suc n \<le> k" "k < Suc n + length pgs" by simp_all
      moreover have "(pg # pgs) ! (k - n) = pgs ! (k - Suc n)"
        using \<open>Suc n \<le> k\<close> by (simp add: nth_Cons')
      ultimately show ?thesis using h x by auto
    qed
  next
    fix x
    assume "x \<in> ?H \<union> ?R"
    then consider "x \<in> ?H" | "x \<in> ?R" by blast
    then show "x \<in> ?L"
    proof cases
      case 1
      then have "hyperlinks pg \<noteq> []" and "x = int n + 1"
        by (auto split: if_splits)
      then show ?thesis by force
    next
      case 2
      then obtain k where x: "x = int k + 1" and k: "Suc n \<le> k" "k < Suc n + length pgs"
        and h: "hyperlinks (pgs ! (k - Suc n)) \<noteq> []"
        by blast
      have "(pg # pgs) ! (k - n) = pgs ! (k - Suc n)"
        using k(1) by (simp add: nth_Cons')
      with x k h show ?thesis by force
    qed
  qed
  show ?case
    unfolding fut split using here later by (simp add: image_Un)
qed

lemma download_jpegs_keys:
  assumes "download_jpegs_from_pdf env fs pdf_file directory = Inr (fs', jpeg_files)"
    and "documents env pdf_file = Some pages"
  shows "dom jpeg_files = {int k + 1 | k. k < length pages \<and> hyperlinks (pages ! k) \<noteq> []}"
proof -
  from assms obtain futures
    where s: "submit_pages directory 0 pages = Inr futures"
      and c: "collect_results env fs Map.empty futures = Inr (fs', jpeg_files)"
    by (auto simp: download_jpegs_from_pdf_def split: sum.splits)
  show ?thesis
    using collect_results_dom [OF c] submit_pages_counts [OF s] by simp
qed

lemma rename_pages_called:
  "rename_pages fs jpeg_files n pages = Inr (fs', printed, called) \<Longrightarrow>
   set called = {k. n \<le> k \<and> k < n + int (length pages) \<and> jpeg_files k \<noteq> None}"
proof (induction pages arbitrary: fs n fs' printed called)
  case Nil
  then show ?case by auto
next
  case (Cons pg pgs)
  show ?case
  proof (cases "jpeg_files n")
    case None
    with Cons.prems have "rename_pages fs jpeg_files (n + 1) pgs = Inr (fs', printed, called)"
      by (auto split: sum.splits)
    from Cons.IH [OF this]
    have "set called = {k. n + 1 \<le> k \<and> k < n + 1 + int (length pgs) \<and> jpeg_files k \<noteq> None}" .
    also have "\<dots> = {k. n \<le> k \<and> k < n + int (length (pg # pgs)) \<and> jpeg_files k \<noteq> None}"
    proof (intro set_eqI iffI)
      fix k
      assume "k \<in> {k. n + 1 \<le> k \<and> k < n + 1 + int (length pgs) \<and> jpeg_files k \<noteq> None}"
      then show "k \<in> {k. n \<le> k \<and> k < n + int (length (pg # pgs)) \<and> jpeg_files k \<noteq> None}"
        by simp
    next
      fix k
      assume a: "k \<in> {k. n \<le> k \<and> k < n + int (length (pg # pgs)) \<and> jpeg_files k \<noteq> None}"
      then have "k \<noteq> n" using None by auto
      with a show "k \<in> {k. n + 1 \<le> k \<and> k < n + 1 + int (length pgs) \<and> jpeg_files k \<noteq> None}"
        by simp
    qed
    finally show ?thesis .
  next
    case (Some jpeg_file)
    with Cons.prems obtain fs1 fs2 printed' called'
      where r: "rename_pages fs1 jpeg_files (n + 1) pgs = Inr (fs2, printed', called')"
        and c: "called = n # called'"
      by (auto split: sum.splits prod.splits)
    from Cons.IH [OF r]
    have "set called' = {k. n + 1 \<le> k \<and> k < n + 1 + int (length pgs) \<and> jpeg_files k \<noteq> None}" .
    with c have "set called
        = insert n {k. n + 1 \<le> k \<and> k < n + 1 + int (length pgs) \<and> jpeg_files k \<noteq> None}"
      by simp
    also have "\<dots> = {k. n \<le> k \<and> k < n + int (length (pg # pgs)) \<and> jpeg_files k \<noteq> None}"
      using Some by auto
    finally show ?thesis .
  qed
qed

lemma rename_pages_returns:
  "(\<And>pg. pg \<in> set pages \<Longrightarrow> \<exists>r. parse_text_to_fields (reader_text pg) = Inr r) \<Longrightarrow>
   \<exists>res. rename_pages fs jpeg_files n pages = Inr res"
proof (induction pages arbitrary: fs n)
  case Nil
  show ?case by simp
next
  case (Cons pg pgs)
  from Cons.prems [of pg] obtain r where r: "parse_text_to_fields (reader_text pg) = Inr r"
    by auto
  have ih: "\<exists>res. rename_pages fs0 jpeg_files (n + 1) pgs = Inr res" for fs0
    using Cons.IH [of fs0 "n + 1"] Cons.prems by simp
  obtain uploaded_by taken_date upload_date description job_number
    where r': "r = (uploaded_by, taken_date, upload_date, description, job_number)"
    by (cases r) auto
  show ?case
  proof (cases "jpeg_files n")
    case None
    with r r' ih [of fs] show ?thesis by simp
  next
    case (Some jpeg_file)
    obtain fs1 pr where c: "rename_jpeg fs jpeg_file n (Some description) uploaded_by
                              taken_date job_number = (fs1, pr)"
      by (cases "rename_jpeg fs jpeg_file n (Some description) uploaded_by taken_date job_number")
    from ih [of fs1] obtain res where "rename_pages fs1 jpeg_files (n + 1) pgs = Inr res"
      by blast
    with r r' Some c show ?thesis
      by (cases res) auto
  qed
qed

text \<open>
  C8: the driver raises where the claim says it skips. The second page of the report
  has no hyperlink and no text. The parser is called on every page before the
  hyperlinks and the dictionary are looked at, and it raises on a text without the
  word \<open>Description\<close> (the defect of C3), so \<open>process_pdf\<close> ends with
  \<open>AttributeError\<close>, in \<open>download_jpegs_from_pdf\<close> already. A page without hyperlinks
  whose text does hold a description is skipped: for the document \<open>covered.pdf\<close>
  \<open>rename_jpeg\<close> is called for page 1 only.
\<close>

theorem process_pdf_blank_page_raises:
  "process_pdf report_env empty_fs ''report.pdf'' ''out'' = Inl AttributeError
   \<and> download_jpegs_from_pdf report_env empty_fs ''report.pdf'' ''out'' = Inl AttributeError
   \<and> rename_pages empty_fs Map.empty 1 [blank_page] = Inl AttributeError
   \<and> (\<exists>fs printed. process_pdf report_env empty_fs ''covered.pdf'' ''out''
                      = Inr (fs, printed, [1]))"
proof -
  have blank: "parse_text_to_fields [] = Inl AttributeError"
    by (simp add: parse_raises_without_description description_matches_def)
  have photo: "parse_text_to_fields
         ''Job #: 1234\<newline>Uploaded By\<newline>Joe Smith\<newline>Roof leak\<newline>Description\<newline>''
       = Inr (Some ''Joe_S'', None, None, ''Roof-leak'', Some ''1234'')"
    by (simp add: parse_text_to_fields_def uploaded_by_matches_def taken_date_matches_def
        upload_date_matches_def description_matches_def job_number_matches_def
        clean_field_def clean_date_def clean_description_def last_line_def
        strip_def isspace_def isdigit_def slice_to_def)
  have cover: "parse_text_to_fields ''Cover\<newline>Description\<newline>''
       = Inr (None, None, None, ''Cover'', None)"
    by (simp add: parse_text_to_fields_def uploaded_by_matches_def taken_date_matches_def
        upload_date_matches_def description_matches_def job_number_matches_def
        clean_field_def clean_date_def clean_description_def last_line_def
        strip_def isspace_def isdigit_def slice_to_def)
  have d: "download_jpegs_from_pdf report_env empty_fs ''report.pdf'' ''out'' = Inl AttributeError"
    by (simp add: download_jpegs_from_pdf_def report_env_def photo_page_def blank_page_def
        blank photo)
  have p: "process_pdf report_env empty_fs ''report.pdf'' ''out'' = Inl AttributeError"
    by (simp add: process_pdf_def report_env_def empty_fs_def makedirs_def is_file_def
        ancestors.simps dirname_def download_jpegs_from_pdf_def photo_page_def blank_page_def
        blank photo)
  have r: "rename_pages empty_fs Map.empty 1 [blank_page] = Inl AttributeError"
    by (simp add: blank_page_def blank)
  have base: "new_name_base (Some ''Roof-leak'') 1 None (Some ''1234'') = ''Roofleak_1_None_1234''"
    by (simp add: new_name_base_def is_word_def str_int_def digits_of_eq)
  have c: "\<exists>fs printed. process_pdf report_env empty_fs ''covered.pdf'' ''out''
                      = Inr (fs, printed, [1])"
    by (simp add: process_pdf_def report_env_def empty_fs_def makedirs_def is_file_def
        ancestors.simps dirname_def download_jpegs_from_pdf_def photo_page_def cover_page_def
        photo cover download_jpeg_def write_file_def is_dir_def parent_ok_def join_def
        str_int_def digits_of_eq rename_jpeg_def base new_name_of_def dedup_suffix.simps
        path_exists_def rename_def move_jpeg_to_directory_def join_opt_def basename_def
        Let_def)
  from p d r c show ?thesis by blast
qed

end
